theory Spec2Isabelle
  imports Complex_Main "HOL-Library.Word"
begin

unbundle bit_operations_syntax

section \<open>Go values: bytes, strings, fixed-width integers, errors\<close>

text \<open>
  The decoder of \<^verbatim>\<open>decoder.go\<close> reads a drum-machine file through an \<^verbatim>\<open>io.Reader\<close>.
  Bytes are 8-bit words; \<^verbatim>\<open>int8\<close>, \<^verbatim>\<open>int32\<close> and \<^verbatim>\<open>int64\<close> are words read as two's
  complement with \<open>sint\<close>, and all arithmetic on them wraps as Go's does. A
  \<^verbatim>\<open>float32\<close> is kept as its IEEE-754 bit pattern, which \<^verbatim>\<open>math.Float32frombits\<close>
  reinterprets without changing a bit; \<open>float32_value\<close> gives the number a finite pattern
  denotes. A Go string is a sequence of bytes; it is shown as an Isabelle string, one
  character per byte.
\<close>

type_synonym byte = "8 word"
type_synonym int8 = "8 word"
type_synonym int32 = "32 word"
type_synonym int64 = "64 word"
type_synonym float32 = "32 word"

definition string_of_bytes :: "byte list \<Rightarrow> string" where
  "string_of_bytes bs = map (\<lambda>b. char_of (unat b)) bs"

definition float32_value :: "float32 \<Rightarrow> real option" where
  "float32_value w =
     (let e = unat (drop_bit 23 w AND 0xFF);
          m = unat (w AND 0x7FFFFF);
          s = (if bit w 31 then - 1 else 1 :: real)
      in if e = 255 then None
         else if e = 0 then Some (s * real m / 2 ^ 149)
         else Some (s * real (2 ^ 23 + m) * 2 ^ e / 2 ^ 150))"

text \<open>
  The errors the decoder can return: \<^verbatim>\<open>io.EOF\<close> and \<^verbatim>\<open>io.ErrUnexpectedEOF\<close> from the
  reads, the value built by \<^verbatim>\<open>fmt.Errorf\<close> for a bad header, and the \<^verbatim>\<open>*PathError\<close> of
  \<^verbatim>\<open>os.Open\<close>. A run-time panic is not an error value: it is the third outcome of
  \<open>result\<close>.
\<close>

datatype error = EOF | ErrUnexpectedEOF | errorString string | PathError string

datatype 'a result = Ok 'a | Err error | Panic string

text \<open>The two error kinds the specification speaks of.\<close>

fun FormatError :: "error \<Rightarrow> bool" where
  "FormatError (errorString msg) = True"
| "FormatError e = False"

fun IOError :: "error \<Rightarrow> bool" where
  "IOError EOF = True"
| "IOError ErrUnexpectedEOF = True"
| "IOError e = False"

section \<open>The byte source\<close>

text \<open>
  An \<^verbatim>\<open>io.Reader\<close> delivers its bytes in pieces: \<^verbatim>\<open>Read(buf)\<close> returns at most
  \<^verbatim>\<open>len(buf)\<close> bytes, possibly fewer, and \<^verbatim>\<open>io.EOF\<close> once nothing is left. A reader is
  modelled by the list of pieces it has still to deliver; one call of \<open>Read\<close> never
  crosses the end of a piece. A regular file hands out whatever is asked for until its
  end, so it is a single piece (none when the file is empty).

  \<open>Read n r\<close> returns the bytes stored at the front of the caller's buffer of length
  \<open>n\<close>, the error, and the reader afterwards.
\<close>

type_synonym Reader = "byte list list"

definition regular_file :: "byte list \<Rightarrow> Reader" where
  "regular_file bs = (if bs = [] then [] else [bs])"

fun Read :: "nat \<Rightarrow> Reader \<Rightarrow> (byte list \<times> error option) \<times> Reader" where
  "Read n [] = (if n = 0 then (([], None), []) else (([], Some EOF), []))"
| "Read n (c # cs) =
     (if n = 0 then (([], None), c # cs)
      else if length c \<le> n then ((c, None), cs)
      else ((take n c, None), drop n c # cs))"

text \<open>
  \<^verbatim>\<open>io.ReadFull\<close>, which \<^verbatim>\<open>binary.Read\<close> uses: it calls \<^verbatim>\<open>Read\<close> on the unfilled rest of
  the buffer until \<open>n\<close> bytes are there. When the reader ends first the error is
  \<^verbatim>\<open>io.EOF\<close> if nothing was read and \<^verbatim>\<open>io.ErrUnexpectedEOF\<close> otherwise. \<open>got\<close> holds the
  bytes read so far.
\<close>

fun ReadFull :: "nat \<Rightarrow> byte list \<Rightarrow> Reader \<Rightarrow> (error + byte list) \<times> Reader" where
  "ReadFull n got [] =
     (if n \<le> length got then (Inr got, [])
      else if got = [] then (Inl EOF, [])
      else (Inl ErrUnexpectedEOF, []))"
| "ReadFull n got (c # cs) =
     (if n \<le> length got then (Inr got, c # cs)
      else if length c \<le> n - length got then ReadFull n (got @ c) cs
      else (Inr (got @ take (n - length got) c), drop (n - length got) c # cs))"

text \<open>\<^verbatim>\<open>make([]byte, n)\<close> followed by a read that stored \<open>got\<close> at its front.\<close>

definition buffer :: "nat \<Rightarrow> byte list \<Rightarrow> byte list" where
  "buffer n got = got @ replicate (n - length got) 0"

text \<open>\<^verbatim>\<open>bytes.Trim(buf, "\x00")\<close>: the zero bytes at both ends are cut off.\<close>

definition Trim :: "byte list \<Rightarrow> byte list" where
  "Trim bs = rev (dropWhile (\<lambda>b. b = 0) (rev (dropWhile (\<lambda>b. b = 0) bs)))"

text \<open>
  The stripping as the specification words it, for comparison with \<open>Trim\<close>: only the
  zero bytes at the tail go.
\<close>

definition stripTrailingZeros :: "byte list \<Rightarrow> byte list" where
  "stripTrailingZeros bs = rev (dropWhile (\<lambda>b. b = 0) (rev bs))"

section \<open>The decoded pattern\<close>

record Track =
  ID :: int
  Name :: string
  Steps :: "bool list"

record Pattern =
  Version :: string
  Tempo :: float32
  Tracks :: "Track list"

section \<open>The field readers\<close>

definition readHeader :: "Reader \<Rightarrow> (string \<times> error option) \<times> Reader" where
  "readHeader file =
     (case Read 6 file of
        ((got, Some err), file') \<Rightarrow> (([], Some err), file')
      | ((got, None), file') \<Rightarrow> ((string_of_bytes (buffer 6 got), None), file'))"

definition readContentSize :: "Reader \<Rightarrow> (error + int64) \<times> Reader" where
  "readContentSize file =
     (case ReadFull 8 [] file of
        (Inl err, file') \<Rightarrow> (Inl err, file')
      | (Inr bs, file') \<Rightarrow> (Inr (word_rcat bs), file'))"

definition readVersion :: "Reader \<Rightarrow> (error + string) \<times> Reader" where
  "readVersion file =
     (case Read 32 file of
        ((got, Some err), file') \<Rightarrow> (Inl err, file')
      | ((got, None), file') \<Rightarrow> (Inr (string_of_bytes (Trim (buffer 32 got))), file'))"

definition readTempo :: "Reader \<Rightarrow> (error + float32) \<times> Reader" where
  "readTempo file =
     (case ReadFull 4 [] file of
        (Inl err, file') \<Rightarrow> (Inl err, file')
      | (Inr bs, file') \<Rightarrow> (Inr (word_rcat (rev bs)), file'))"

text \<open>
  The loop over the sixteen step bytes of \<^verbatim>\<open>readTrack\<close>. \<open>steps\<close> is the \<^verbatim>\<open>[16]bool\<close>
  array, \<open>i\<close> the loop index; each byte is read as an \<^verbatim>\<open>int8\<close> and compared with zero.
\<close>

function stepsLoop :: "nat \<Rightarrow> bool list \<Rightarrow> Reader \<Rightarrow> (error + bool list) \<times> Reader" where
  "stepsLoop i steps file =
     (if i < 16 then
        (case ReadFull 1 [] file of
           (Inl err, file') \<Rightarrow> (Inl err, file')
         | (Inr bs, file') \<Rightarrow> stepsLoop (i + 1) (steps[i := 0 < sint (word_rcat bs :: int8)]) file')
      else (Inr steps, file))"
  by pat_completeness auto
termination
  by (relation "measure (\<lambda>(i, steps, file). 16 - i)") auto

text \<open>
  \<^verbatim>\<open>readTrack(file, &size)\<close>. The counter behind the pointer (\<open>sz\<close>, as \<open>size\<close> is taken in
  HOL) is returned as the third
  component, also on the failing paths, where it has been decremented for the fields
  read so far. \<^verbatim>\<open>make([]byte, nameLength)\<close> panics when the length is negative. The result
  of \<^verbatim>\<open>file.Read(buf)\<close> for the name is dropped by the code, so neither its count nor its
  error takes part in what follows.
\<close>

definition readTrack :: "Reader \<Rightarrow> int64 \<Rightarrow> Track result \<times> Reader \<times> int64" where
  "readTrack file sz =
     (case ReadFull 4 [] file of
        (Inl err, file1) \<Rightarrow> (Err err, file1, sz)
      | (Inr idb, file1) \<Rightarrow>
          (let id = (word_rcat (rev idb) :: int32); size1 = sz - 4 in
           case ReadFull 1 [] file1 of
             (Inl err, file2) \<Rightarrow> (Err err, file2, size1)
           | (Inr nb, file2) \<Rightarrow>
               (let nameLength = (word_rcat nb :: int8); size2 = size1 - 1 in
                if sint nameLength < 0
                then (Panic ''runtime error: makeslice: len out of range'', file2, size2)
                else
                  (case Read (nat (sint nameLength)) file2 of
                     ((got, _), file3) \<Rightarrow>
                       (let name = string_of_bytes (buffer (nat (sint nameLength)) got);
                            size3 = size2 - scast nameLength in
                        case stepsLoop 0 (replicate 16 False) file3 of
                          (Inl err, file4) \<Rightarrow> (Err err, file4, size3)
                        | (Inr steps, file4) \<Rightarrow>
                            (Ok \<lparr>ID = sint id, Name = name, Steps = steps\<rparr>,
                             file4, size3 - 16))))))"

section \<open>What a successful read consumes\<close>

text \<open>
  The bytes of a reader are \<open>concat r\<close>. Every read takes a prefix of them; a track
  that is read with success is laid out in the stream as its four id bytes, its length
  byte, the name bytes that \<open>Read\<close> delivered and its sixteen step bytes.
\<close>


lemma Read_concat:
  "Read n r = ((got, e), r') \<Longrightarrow> concat r = got @ concat r' \<and> length got \<le> n"
  by (cases r) (auto split: if_splits)

lemma ReadFull_Inr:
  "ReadFull n got r = (Inr bs, r') \<Longrightarrow> length got \<le> n \<Longrightarrow>
     \<exists>new. bs = got @ new \<and> length bs = n \<and> concat r = new @ concat r'"
proof (induction r arbitrary: got)
  case Nil
  then show ?case by (auto split: if_splits)
next
  case (Cons c cs)
  show ?case
  proof (cases "n \<le> length got")
    case True
    with Cons.prems show ?thesis by auto
  next
    case False
    show ?thesis
    proof (cases "length c \<le> n - length got")
      case True
      with False Cons.prems have "ReadFull n (got @ c) cs = (Inr bs, r')" by simp
      moreover have "length (got @ c) \<le> n" using True False by simp
      ultimately obtain new where "bs = (got @ c) @ new" "length bs = n" "concat cs = new @ concat r'"
        using Cons.IH by blast
      then show ?thesis by auto
    next
      case c: False
      with False Cons.prems show ?thesis by auto
    qed
  qed
qed

lemma ReadFull_fresh:
  "ReadFull n [] r = (Inr bs, r') \<Longrightarrow> length bs = n \<and> concat r = bs @ concat r'"
  using ReadFull_Inr [of n "[]" r bs r'] by auto

lemma stepsLoop_Inr:
  "stepsLoop i steps f = (Inr steps', f') \<Longrightarrow> i \<le> 16 \<Longrightarrow> length steps = 16 \<Longrightarrow>
     \<exists>bs. length bs = 16 - i \<and> concat f = bs @ concat f' \<and>
          steps' = take i steps @ map (\<lambda>b. 0 < sint b) bs"
proof (induction i steps f rule: stepsLoop.induct)
  case (1 i steps f)
  show ?case
  proof (cases "i < 16")
    case False
    with "1.prems" show ?thesis by simp
  next
    case True
    obtain res file1 where rf: "ReadFull 1 [] f = (res, file1)" by (cases "ReadFull 1 [] f")
    show ?thesis
    proof (cases res)
      case (Inl err)
      with True rf "1.prems" show ?thesis by simp
    next
      case (Inr b1)
      from rf Inr have b1: "length b1 = 1" "concat f = b1 @ concat file1"
        using ReadFull_fresh by blast+
      then obtain b where b: "b1 = [b]" by (cases b1) auto
      let ?s = "steps[i := 0 < sint (word_rcat b1 :: int8)]"
      from True rf Inr "1.prems" have run: "stepsLoop (i + 1) ?s file1 = (Inr steps', f')"
        by simp
      from "1.IH" [OF True rf [symmetric] Inr run] True "1.prems"
      obtain bs where bs: "length bs = 16 - (i + 1)" "concat file1 = bs @ concat f'"
        "steps' = take (i + 1) ?s @ map (\<lambda>b. 0 < sint b) bs"
        by auto
      have "word_rcat [b] = b" by (simp add: word_rcat_def)
      have "take (i + 1) ?s = take i steps @ [0 < sint b]"
        using True "1.prems" b \<open>word_rcat [b] = b\<close> by (simp add: take_Suc_conv_app_nth)
      with bs b1 b True show ?thesis
        by (intro exI [of _ "b # bs"]) auto
    qed
  qed
qed


lemma word_rcat_single: "(word_rcat [b] :: int8) = b"
  by (simp add: word_rcat_def)

lemma readTrack_Ok:
  assumes "readTrack f sz = (Ok t, f', sz')"
  shows "\<exists>idb nl got sb.
           length idb = 4 \<and> 0 \<le> sint nl \<and> length got \<le> nat (sint nl) \<and> length sb = 16 \<and>
           concat f = idb @ [nl] @ got @ sb @ concat f' \<and>
           t = \<lparr>ID = sint (word_rcat (rev idb) :: int32),
                Name = string_of_bytes (buffer (nat (sint nl)) got),
                Steps = map (\<lambda>b. 0 < sint b) sb\<rparr> \<and>
           sz' = sz - 4 - 1 - scast nl - 16"
proof -
  obtain r1 f1 where a: "ReadFull 4 [] f = (r1, f1)" by (cases "ReadFull 4 [] f")
  with assms obtain idb where r1: "r1 = Inr idb"
    by (cases r1) (auto simp: readTrack_def)
  obtain r2 f2 where b: "ReadFull 1 [] f1 = (r2, f2)" by (cases "ReadFull 1 [] f1")
  with assms a r1 obtain nb where r2: "r2 = Inr nb"
    by (cases r2) (auto simp: readTrack_def Let_def)
  from a r1 have idb: "length idb = 4" "concat f = idb @ concat f1"
    using ReadFull_fresh by blast+
  from b r2 have nb: "length nb = 1" "concat f1 = nb @ concat f2"
    using ReadFull_fresh by blast+
  then obtain nl where nl: "nb = [nl]" by (cases nb) auto
  have nlpos: "0 \<le> sint nl"
    using assms a r1 b r2 nl by (auto simp: readTrack_def Let_def word_rcat_single split: if_splits)
  obtain got e f3 where c: "Read (nat (sint nl)) f2 = ((got, e), f3)"
    by (cases "Read (nat (sint nl)) f2") auto
  then have got: "concat f2 = got @ concat f3" "length got \<le> nat (sint nl)"
    using Read_concat by blast+
  obtain r4 f4 where d: "stepsLoop 0 (replicate 16 False) f3 = (r4, f4)"
    by (cases "stepsLoop 0 (replicate 16 False) f3")
  with assms a r1 b r2 nl nlpos c obtain steps where r4: "r4 = Inr steps"
    by (cases r4) (auto simp: readTrack_def Let_def word_rcat_single)
  from assms a r1 b r2 nl nlpos c d r4
  have res: "t = \<lparr>ID = sint (word_rcat (rev idb) :: int32),
                Name = string_of_bytes (buffer (nat (sint nl)) got), Steps = steps\<rparr>"
    "f' = f4" "sz' = sz - 4 - 1 - scast nl - 16"
    by (auto simp: readTrack_def Let_def word_rcat_single)
  from d r4 obtain sb where sb: "length sb = 16" "concat f3 = sb @ concat f4"
    "steps = map (\<lambda>b. 0 < sint b) sb"
    using stepsLoop_Inr [of 0 "replicate 16 False" f3 steps f4] by auto
  show ?thesis
    using idb nb nl nlpos got sb res a b c by (intro exI [of _ idb] exI [of _ nl] exI [of _ got] exI [of _ sb]) simp
qed

lemma readTrack_consumes:
  assumes "readTrack f sz = (Ok t, f', sz')"
  shows "length (concat f') < length (concat f)"
proof -
  from readTrack_Ok [OF assms] obtain idb nl got sb
    where "concat f = idb @ [nl] @ got @ sb @ concat f'" by blast
  then have "length (concat f) = length idb + 1 + length got + length sb + length (concat f')"
    by simp
  then show ?thesis by simp
qed

section \<open>The track loop and the decoder\<close>

text \<open>
  The loop \<^verbatim>\<open>for size > 0\<close> of \<^verbatim>\<open>DecodeFile\<close>, with the counter and the slice of tracks
  as loop state. It ends because every track read with success takes bytes from the
  reader.
\<close>

function trackLoop :: "Reader \<Rightarrow> int64 \<Rightarrow> Track list \<Rightarrow> Track list result \<times> Reader \<times> int64" where
  "trackLoop f sz tracks =
     (if 0 < sint sz then
        (case readTrack f sz of
           (Ok track, f', sz') \<Rightarrow> trackLoop f' sz' (tracks @ [track])
         | (Err err, f', sz') \<Rightarrow> (Err err, f', sz')
         | (Panic msg, f', sz') \<Rightarrow> (Panic msg, f', sz'))
      else (Ok tracks, f, sz))"
  by pat_completeness auto
termination
proof (relation "measure (\<lambda>(f, sz, tracks). length (concat f))")
  show "wf (measure (\<lambda>(f, sz, tracks). length (concat f)))" by simp
next
  fix f :: Reader and sz :: int64 and tracks :: "Track list" and x y x1 x2 y2
  assume "0 < sint sz" "(x, y) = readTrack f sz" "x = Ok x1" "(x2, y2) = y"
  then have "readTrack f sz = (Ok x1, x2, y2)" by simp
  then show "((x2, y2, tracks @ [x1]), f, sz, tracks) \<in> measure (\<lambda>(f, sz, tracks). length (concat f))"
    using readTrack_consumes by simp
qed

declare trackLoop.simps [simp del]

text \<open>
  The part of \<^verbatim>\<open>DecodeFile\<close> that follows the opening of the file, on the reader \<open>f\<close>.
  The error of \<^verbatim>\<open>readHeader\<close> is assigned and never looked at: only the header string
  is compared. The second component is the reader as the decoder leaves it.
\<close>

definition decode :: "Reader \<Rightarrow> Pattern result \<times> Reader" where
  "decode f =
     (case readHeader f of
        ((header, err), f1) \<Rightarrow>
          if header \<noteq> ''SPLICE''
          then (Err (errorString (''Invalid file header, expected SPLICE, got '' @ header)), f1)
          else
            (case readContentSize f1 of
               (Inl err, f2) \<Rightarrow> (Err err, f2)
             | (Inr sz, f2) \<Rightarrow>
                 (case readVersion f2 of
                    (Inl err, f3) \<Rightarrow> (Err err, f3)
                  | (Inr version, f3) \<Rightarrow>
                      (case readTempo f3 of
                         (Inl err, f4) \<Rightarrow> (Err err, f4)
                       | (Inr tempo, f4) \<Rightarrow>
                           (case trackLoop f4 (sz - 32 - 4) [] of
                              (Ok tracks, f5, sz') \<Rightarrow>
                                (Ok \<lparr>Version = version, Tempo = tempo, Tracks = tracks\<rparr>, f5)
                            | (Err err, f5, sz') \<Rightarrow> (Err err, f5)
                            | (Panic msg, f5, sz') \<Rightarrow> (Panic msg, f5))))))"

text \<open>
  \<^verbatim>\<open>DecodeFile(path)\<close>: the file system maps a path to the reader that \<^verbatim>\<open>os.Open\<close> gives
  for it; a path it does not map cannot be opened.
\<close>

definition DecodeFile :: "(string \<rightharpoonup> Reader) \<Rightarrow> string \<Rightarrow> Pattern result" where
  "DecodeFile fs path =
     (case fs path of
        None \<Rightarrow> Err (PathError path)
      | Some f \<Rightarrow> fst (decode f))"


section \<open>Files used in the scenarios\<close>

text \<open>
  The first fifty bytes of a file: the signature, the eight bytes \<open>sz\<close> of the payload
  size, the version \<^verbatim>\<open>0.808-alpha\<close> padded with zeros to thirty-two bytes, and the tempo
  120.0 as a little-endian \<^verbatim>\<open>float32\<close>.
\<close>

definition preamble :: "byte list \<Rightarrow> byte list" where
  "preamble sz = map of_char ''SPLICE'' @ sz
     @ map of_char ''0.808-alpha'' @ replicate 21 0 @ [0x00, 0x00, 0xF0, 0x42]"

definition kick_steps :: "byte list" where
  "kick_steps = [1,0,0,0, 1,0,0,0, 1,0,0,0, 1,0,0,0]"

text \<open>The track record of the scenario and the track it decodes to.\<close>

definition kick_record :: "byte list" where
  "kick_record = [0, 0, 0, 0] @ [4] @ map of_char ''kick'' @ kick_steps"

definition kick_track :: Track where
  "kick_track = \<lparr>ID = 0, Name = ''kick'',
                  Steps = [True, False, False, False, True, False, False, False,
                           True, False, False, False, True, False, False, False]\<rparr>"

lemma float32_value_120: "float32_value 0x42F00000 = Some 120"
proof -
  have e: "unat (drop_bit 23 (0x42F00000 :: 32 word) AND 0xFF) = 133" by simp
  have m: "unat ((0x42F00000 :: 32 word) AND 0x7FFFFF) = 7340032" by simp
  have s: "\<not> bit (0x42F00000 :: 32 word) 31" by (simp add: bit_iff_odd drop_bit_eq_div)
  show ?thesis by (simp add: float32_value_def Let_def e m s)
qed

section \<open>The end-to-end scenario\<close>

text \<open>
  C1. The file made of the signature, the payload size 61, the version block
  \<^verbatim>\<open>0.808-alpha\<close>, the tempo bytes of 120.0 and one track record (id 0, name length 4,
  name \<^verbatim>\<open>kick\<close>, steps 1,0,0,0 four times) decodes, with no error and nothing left
  unread, to the pattern with that version, the tempo whose bit pattern is
  \<^verbatim>\<open>0x42F00000\<close>, which is the number 120, and the single track \<^verbatim>\<open>kick\<close> with every fourth
  step active. \<^verbatim>\<open>DecodeFile\<close> on a path that names this file returns the same pattern.
\<close>

theorem C1_end_to_end:
  "decode (regular_file (preamble [0, 0, 0, 0, 0, 0, 0, 61] @ [0, 0, 0, 0] @ [4]
                         @ map of_char ''kick'' @ kick_steps)) =
     (Ok \<lparr>Version = ''0.808-alpha'', Tempo = 0x42F00000,
          Tracks = [\<lparr>ID = 0, Name = ''kick'',
                     Steps = [True, False, False, False, True, False, False, False,
                              True, False, False, False, True, False, False, False]\<rparr>]\<rparr>, [])
   \<and> DecodeFile [''pattern.splice'' \<mapsto>
         regular_file (preamble [0, 0, 0, 0, 0, 0, 0, 61] @ [0, 0, 0, 0] @ [4]
                       @ map of_char ''kick'' @ kick_steps)] ''pattern.splice'' =
     Ok \<lparr>Version = ''0.808-alpha'', Tempo = 0x42F00000,
         Tracks = [\<lparr>ID = 0, Name = ''kick'',
                    Steps = [True, False, False, False, True, False, False, False,
                             True, False, False, False, True, False, False, False]\<rparr>]\<rparr>
   \<and> float32_value 0x42F00000 = Some 120"
proof -
  have run: "decode (regular_file (preamble [0, 0, 0, 0, 0, 0, 0, 61] @ [0, 0, 0, 0] @ [4]
                         @ map of_char ''kick'' @ kick_steps)) =
     (Ok \<lparr>Version = ''0.808-alpha'', Tempo = 0x42F00000,
          Tracks = [\<lparr>ID = 0, Name = ''kick'',
                     Steps = [True, False, False, False, True, False, False, False,
                              True, False, False, False, True, False, False, False]\<rparr>]\<rparr>, [])"
    by code_simp
  show ?thesis
    by (simp only: run DecodeFile_def float32_value_120 map_upd_Some_unfold fun_upd_same
          option.case fst_conv simp_thms)
qed

section \<open>Negative name lengths\<close>

text \<open>
  C3. A panic is an outcome of the decoder. In the file of the scenario with the name
  length byte \<^verbatim>\<open>0xFF\<close>, which is \<open>-1\<close> as an \<^verbatim>\<open>int8\<close>, \<^verbatim>\<open>make([]byte, nameLength)\<close>
  panics: the decoder returns neither a pattern nor an error.
\<close>

theorem C3_negative_name_length_panics:
  "decode (regular_file (preamble [0, 0, 0, 0, 0, 0, 0, 61] @ [0, 0, 0, 0] @ [0xFF]
                         @ map of_char ''kick'' @ kick_steps)) =
     (Panic ''runtime error: makeslice: len out of range'',
      [map of_char ''kick'' @ kick_steps])"
  by code_simp

section \<open>The header read\<close>

text \<open>
  C4. On the empty file \<^verbatim>\<open>readHeader\<close> returns the empty string together with
  \<^verbatim>\<open>io.EOF\<close>; \<^verbatim>\<open>DecodeFile\<close> compares the string with the signature without looking at
  the error, and returns the error built for a bad header, not \<^verbatim>\<open>io.EOF\<close>. On a file of
  three bytes the read is short without an error, and the buffer with its three
  unwritten zero bytes is compared and reported. The error returned is of the format
  kind, not of the I/O kind.
\<close>

theorem C4_header_error_ignored:
  "readHeader (regular_file []) = (([], Some EOF), []) \<and>
   decode (regular_file []) =
     (Err (errorString ''Invalid file header, expected SPLICE, got ''), []) \<and>
   FormatError (errorString ''Invalid file header, expected SPLICE, got '') \<and>
   \<not> IOError (errorString ''Invalid file header, expected SPLICE, got '') \<and>
   decode (regular_file (map of_char ''SPL'')) =
     (Err (errorString (''Invalid file header, expected SPLICE, got SPL''
                        @ [CHR 0x00, CHR 0x00, CHR 0x00])), [])"
  by code_simp

section \<open>The name read\<close>

text \<open>
  C5. The bytes of the scenario, delivered by a reader whose first piece ends after the
  second byte of the name. \<^verbatim>\<open>file.Read(buf)\<close> stores two bytes and its result is dropped;
  the decoder returns, with no error, a track whose name is \<^verbatim>\<open>ki\<close> followed by two zero
  bytes and whose steps start with the bytes \<^verbatim>\<open>c\<close> and \<^verbatim>\<open>k\<close>; the last two step bytes
  of the file stay unread. On a regular file that ends after the second byte of the name
  the same short read happens at the end of the file, and it is the read of the first
  step that fails, with \<^verbatim>\<open>io.EOF\<close>.
\<close>

theorem C5_short_name_read_accepted:
  "decode [preamble [0, 0, 0, 0, 0, 0, 0, 61] @ [0, 0, 0, 0] @ [4] @ map of_char ''ki'',
           map of_char ''ck'' @ kick_steps] =
     (Ok \<lparr>Version = ''0.808-alpha'', Tempo = 0x42F00000,
          Tracks = [\<lparr>ID = 0, Name = [CHR ''k'', CHR ''i'', CHR 0x00, CHR 0x00],
                     Steps = [True, True, True, False, False, False, True, False,
                              False, False, True, False, False, False, True, False]\<rparr>]\<rparr>,
      [[0, 0]])
   \<and> decode (regular_file (preamble [0, 0, 0, 0, 0, 0, 0, 61] @ [0, 0, 0, 0] @ [4]
                            @ map of_char ''ki'')) = (Err EOF, [])"
  by code_simp

section \<open>The signature gate\<close>

lemma buffer_full: "length got = n \<Longrightarrow> buffer n got = got"
  by (simp add: buffer_def)

text \<open>
  C2. When the read of the header delivers six bytes and they are not \<^verbatim>\<open>SPLICE\<close>, the
  decoder fails with the error built by \<^verbatim>\<open>fmt.Errorf\<close>, whose message ends with the six
  bytes read, and the reader is left right behind those six bytes: nothing more has been
  consumed.
\<close>

theorem C2_signature_gate:
  assumes "Read 6 f = ((got, None), f')" and "length got = 6"
    and "string_of_bytes got \<noteq> ''SPLICE''"
  shows "decode f =
           (Err (errorString (''Invalid file header, expected SPLICE, got ''
                              @ string_of_bytes got)), f')
         \<and> FormatError (errorString (''Invalid file header, expected SPLICE, got ''
                              @ string_of_bytes got))
         \<and> concat f = got @ concat f'"
proof -
  have "readHeader f = ((string_of_bytes got, None), f')"
    using assms(1,2) by (simp add: readHeader_def buffer_full)
  then have "decode f =
           (Err (errorString (''Invalid file header, expected SPLICE, got ''
                              @ string_of_bytes got)), f')"
    using assms(3) by (simp add: decode_def)
  moreover have "concat f = got @ concat f'"
    using Read_concat [OF assms(1)] by simp
  ultimately show ?thesis by simp
qed

theorem C2_signature_gate_witness:
  "Read 6 (regular_file (map of_char ''SPLASH!!'')) =
     ((map of_char ''SPLASH'', None), [map of_char ''!!''])
   \<and> length (map of_char ''SPLASH'' :: byte list) = 6
   \<and> string_of_bytes (map of_char ''SPLASH'') \<noteq> ''SPLICE''
   \<and> decode (regular_file (map of_char ''SPLASH!!'')) =
       (Err (errorString ''Invalid file header, expected SPLICE, got SPLASH''),
        [map of_char ''!!''])"
proof -
  have r: "Read 6 (regular_file (map of_char ''SPLASH!!'')) =
     ((map of_char ''SPLASH'', None), [map of_char ''!!''])"
    by code_simp
  have l: "length (map of_char ''SPLASH'' :: byte list) = 6" by simp
  have s: "string_of_bytes (map of_char ''SPLASH'') = ''SPLASH''" by code_simp
  have n: "string_of_bytes (map of_char ''SPLASH'') \<noteq> ''SPLICE''"
    unfolding s by simp
  from C2_signature_gate [OF r l n] r l n s show ?thesis by simp
qed

section \<open>The version block\<close>

lemma takeWhile_zero: "takeWhile (\<lambda>b. b = 0) (xs :: byte list) = replicate (length (takeWhile (\<lambda>b. b = 0) xs)) 0"
  by (induction xs) auto

lemma rev_split: "xs = rev (dropWhile P (rev xs)) @ rev (takeWhile P (rev xs))"
proof -
  have "rev (takeWhile P (rev xs) @ dropWhile P (rev xs)) = xs"
    by (simp only: takeWhile_dropWhile_id rev_rev_ident)
  then show ?thesis by (simp only: rev_append)
qed

lemma Trim_shape:
  "\<exists>i j. bs = replicate i 0 @ Trim bs @ replicate j 0"
proof -
  let ?z = "\<lambda>b :: byte. b = 0"
  let ?d = "dropWhile ?z bs"
  have d: "?d = Trim bs @ rev (takeWhile ?z (rev ?d))"
    unfolding Trim_def by (rule rev_split)
  have "rev (takeWhile ?z (rev ?d)) = rev (replicate (length (takeWhile ?z (rev ?d))) 0)"
    using takeWhile_zero [of "rev ?d"] by simp
  then have tail: "rev (takeWhile ?z (rev ?d)) = replicate (length (takeWhile ?z (rev ?d))) 0"
    by simp
  have "bs = takeWhile ?z bs @ ?d" by simp
  then have "bs = replicate (length (takeWhile ?z bs)) 0 @ Trim bs
                    @ replicate (length (takeWhile ?z (rev ?d))) 0"
    using d tail takeWhile_zero [of bs] by metis
  then show ?thesis by blast
qed

lemma Trim_ends:
  assumes "Trim bs \<noteq> []"
  shows "hd (Trim bs) \<noteq> 0 \<and> last (Trim bs) \<noteq> 0"
proof -
  let ?z = "\<lambda>b :: byte. b = 0"
  let ?d = "dropWhile ?z bs"
  let ?e = "dropWhile ?z (rev ?d)"
  have e: "?e \<noteq> []" using assms by (simp add: Trim_def)
  then have "\<not> ?z (hd ?e)" by (rule hd_dropWhile)
  then have l: "last (Trim bs) \<noteq> 0" using e by (simp add: Trim_def last_rev)
  have dne: "?d \<noteq> []"
  proof
    assume n: "?d = []"
    have "?e = []" unfolding n by simp
    with e show False by contradiction
  qed
  then have hdd: "\<not> ?z (hd ?d)" by (rule hd_dropWhile)
  have "?d = Trim bs @ rev (takeWhile ?z (rev ?d))"
    unfolding Trim_def by (rule rev_split)
  then have "hd ?d = hd (Trim bs)" using assms by (metis hd_append2)
  with hdd l show ?thesis by simp
qed

text \<open>
  C6, as the code has it. When the read of the version delivers thirty-two bytes, the
  reader moves past exactly those bytes and the version is the block without its leading
  and without its trailing zero bytes: the block is a run of zeros, the version, a run of
  zeros, and a version that is not empty starts and ends with a byte that is not zero, so
  every byte between the first and the last non-zero byte is kept as it is.
\<close>

theorem C6_version_trim:
  assumes "Read 32 f = ((block, None), f')" and "length block = 32"
  shows "readVersion f = (Inr (string_of_bytes (Trim block)), f')
         \<and> concat f = block @ concat f'
         \<and> (\<exists>i j. block = replicate i 0 @ Trim block @ replicate j 0)
         \<and> (Trim block \<noteq> [] \<longrightarrow> hd (Trim block) \<noteq> 0 \<and> last (Trim block) \<noteq> 0)"
proof -
  have "readVersion f = (Inr (string_of_bytes (Trim block)), f')"
    using assms by (simp add: readVersion_def buffer_def)
  moreover have "concat f = block @ concat f'"
    using Read_concat [OF assms(1)] by simp
  ultimately show ?thesis
    using Trim_shape [of block] Trim_ends [of block] by blast
qed

theorem C6_version_trim_witness:
  "Read 32 (regular_file (map of_char ''DRUM-MACHINE'' @ replicate 20 0)) =
     ((map of_char ''DRUM-MACHINE'' @ replicate 20 0, None), [])
   \<and> length (map of_char ''DRUM-MACHINE'' @ replicate 20 0 :: byte list) = 32
   \<and> readVersion (regular_file (map of_char ''DRUM-MACHINE'' @ replicate 20 0)) =
       (Inr ''DRUM-MACHINE'', [])"
proof -
  have r: "Read 32 (regular_file (map of_char ''DRUM-MACHINE'' @ replicate 20 0)) =
     ((map of_char ''DRUM-MACHINE'' @ replicate 20 0, None), [])"
    by code_simp
  have l: "length (map of_char ''DRUM-MACHINE'' @ replicate 20 0 :: byte list) = 32" by simp
  have t: "string_of_bytes (Trim (map of_char ''DRUM-MACHINE'' @ replicate 20 0)) = ''DRUM-MACHINE''"
    by code_simp
  from C6_version_trim [OF r l] have
    "readVersion (regular_file (map of_char ''DRUM-MACHINE'' @ replicate 20 0)) =
       (Inr (string_of_bytes (Trim (map of_char ''DRUM-MACHINE'' @ replicate 20 0))), [])"
    by blast
  with r l t show ?thesis by simp
qed

text \<open>
  C6, as the claim has it, fails on a block that starts with a zero byte: the leading
  zero is removed as well, while stripping the tail alone keeps it.
\<close>

theorem C6_leading_zeros_counterexample:
  "readVersion (regular_file (0 # map of_char ''v1'' @ replicate 29 0)) = (Inr ''v1'', [])
   \<and> string_of_bytes (stripTrailingZeros (0 # map of_char ''v1'' @ replicate 29 0)) =
       CHR 0x00 # ''v1''
   \<and> fst (readVersion (regular_file (0 # map of_char ''v1'' @ replicate 29 0))) \<noteq>
       Inr (string_of_bytes (stripTrailingZeros (0 # map of_char ''v1'' @ replicate 29 0)))"
proof -
  have a: "readVersion (regular_file (0 # map of_char ''v1'' @ replicate 29 0)) = (Inr ''v1'', [])"
    by code_simp
  have b: "string_of_bytes (stripTrailingZeros (0 # map of_char ''v1'' @ replicate 29 0)) =
       CHR 0x00 # ''v1''"
    by code_simp
  show ?thesis unfolding a b by simp
qed

section \<open>Signed bytes\<close>





section \<open>What a successful decode has read\<close>







section \<open>The step flags\<close>




section \<open>The remaining-byte counter\<close>

text \<open>
  The counter is an \<^verbatim>\<open>int64\<close>: a subtraction gives the mathematical difference exactly
  when that difference is representable, and wraps otherwise. The loop stops at once on
  a counter that is not positive and otherwise reads one track and goes on.
\<close>

lemma sint_sub_int64:
  assumes "- (2 ^ 63) \<le> sint (x :: int64) - k" and "sint x - k < 2 ^ 63"
  shows "sint (x - word_of_int k) = sint x - k"
proof -
  have "x - word_of_int k = (word_of_int (sint x - k) :: int64)" by simp
  then have "sint (x - word_of_int k) = signed_take_bit 63 (sint x - k)"
    by (simp only: sint_sbintrunc') simp
  also have "\<dots> = sint x - k"
    using assms by (simp add: signed_take_bit_int_eq_self)
  finally show ?thesis .
qed

lemma sint_int64_range: "- (2 ^ 63) \<le> sint (x :: int64) \<and> sint x < 2 ^ 63"
  using sint_ge [of x] sint_lt [of x] by simp

lemma trackLoop_stop: "\<not> 0 < sint sz \<Longrightarrow> trackLoop f sz ts = (Ok ts, f, sz)"
  by (simp add: trackLoop.simps [of f sz ts])

lemma trackLoop_step:
  "0 < sint sz \<Longrightarrow> readTrack f sz = (Ok t, f', sz') \<Longrightarrow>
     trackLoop f sz ts = trackLoop f' sz' (ts @ [t])"
  by (simp add: trackLoop.simps [of f sz ts])

text \<open>
  C8, as the code has it. When the signature, the size, the version and the tempo are
  read with success and the declared size minus 36 is zero or negative and not below
  \<open>- 2 ^ 63\<close>, so that the subtraction does not wrap, the loop body does not run: the
  loop returns at once with no track, the reader and the counter untouched, and the
  decode succeeds with an empty track list. A declared size of exactly 36 is the case of
  the difference zero.
\<close>

theorem C8_no_tracks:
  assumes "readHeader f = ((''SPLICE'', e), f1)" and "readContentSize f1 = (Inr sz, f2)"
    and "readVersion f2 = (Inr version, f3)" and "readTempo f3 = (Inr tempo, f4)"
    and "sint sz - 36 \<le> 0" and "- (2 ^ 63) \<le> sint sz - 36"
  shows "trackLoop f4 (sz - 32 - 4) [] = (Ok [], f4, sz - 32 - 4)
         \<and> decode f = (Ok \<lparr>Version = version, Tempo = tempo, Tracks = []\<rparr>, f4)"
proof -
  have "sz - 32 - 4 = sz - word_of_int 36" by simp
  moreover have "sint (sz - word_of_int 36) = sint sz - 36"
    using assms(5,6) by (intro sint_sub_int64) simp_all
  ultimately have "\<not> 0 < sint (sz - 32 - 4)" using assms(5) by simp
  then have l: "trackLoop f4 (sz - 32 - 4) [] = (Ok [], f4, sz - 32 - 4)"
    by (rule trackLoop_stop)
  then show ?thesis using assms(1-4) by (simp add: decode_def)
qed

theorem C8_no_tracks_witness:
  "readHeader (regular_file (preamble [0, 0, 0, 0, 0, 0, 0, 36])) =
     ((''SPLICE'', None), [drop 6 (preamble [0, 0, 0, 0, 0, 0, 0, 36])])
   \<and> readContentSize [drop 6 (preamble [0, 0, 0, 0, 0, 0, 0, 36])] =
     (Inr 36, [drop 14 (preamble [0, 0, 0, 0, 0, 0, 0, 36])])
   \<and> readVersion [drop 14 (preamble [0, 0, 0, 0, 0, 0, 0, 36])] =
     (Inr ''0.808-alpha'', [[0x00, 0x00, 0xF0, 0x42]])
   \<and> readTempo [[0x00, 0x00, 0xF0, 0x42]] = (Inr 0x42F00000, [])
   \<and> sint (36 :: int64) - 36 \<le> 0 \<and> - (2 ^ 63) \<le> sint (36 :: int64) - 36
   \<and> decode (regular_file (preamble [0, 0, 0, 0, 0, 0, 0, 36])) =
     (Ok \<lparr>Version = ''0.808-alpha'', Tempo = 0x42F00000, Tracks = []\<rparr>, [])"
proof -
  have a: "readHeader (regular_file (preamble [0, 0, 0, 0, 0, 0, 0, 36])) =
     ((''SPLICE'', None), [drop 6 (preamble [0, 0, 0, 0, 0, 0, 0, 36])])"
    by code_simp
  have b: "readContentSize [drop 6 (preamble [0, 0, 0, 0, 0, 0, 0, 36])] =
     (Inr 36, [drop 14 (preamble [0, 0, 0, 0, 0, 0, 0, 36])])"
    by code_simp
  have c: "readVersion [drop 14 (preamble [0, 0, 0, 0, 0, 0, 0, 36])] =
     (Inr ''0.808-alpha'', [[0x00, 0x00, 0xF0, 0x42]])"
    by code_simp
  have d: "readTempo [[0x00, 0x00, 0xF0, 0x42]] = (Inr 0x42F00000, [])"
    by code_simp
  have s: "sint (36 :: int64) - 36 \<le> 0" "- (2 ^ 63) \<le> sint (36 :: int64) - 36"
    by simp_all
  from C8_no_tracks [OF a b c d s] a b c d s show ?thesis by blast
qed

text \<open>
  C8, as the claim has it, fails for a declared size of \<open>- 2 ^ 63\<close> (size bytes
  \<^verbatim>\<open>80 00 00 00 00 00 00 00\<close>): the size minus 36 is negative, yet \<^verbatim>\<open>size -= 32\<close> wraps to
  a positive counter, the loop body runs, and on a file that ends after the tempo the
  read of a track id fails with \<^verbatim>\<open>io.EOF\<close>.
\<close>

theorem C8_wrapped_size_counterexample:
  "sint (word_rcat [0x80, 0, 0, 0, 0, 0, 0, 0 :: byte] :: int64) - 36 \<le> 0
   \<and> decode (regular_file (preamble [0x80, 0, 0, 0, 0, 0, 0, 0])) = (Err EOF, [])"
proof -
  have "(word_rcat [0x80, 0, 0, 0, 0, 0, 0, 0 :: byte] :: int64) = 0x8000000000000000"
    by code_simp
  then have "sint (word_rcat [0x80, 0, 0, 0, 0, 0, 0, 0 :: byte] :: int64) - 36 \<le> 0"
    by simp
  moreover have "decode (regular_file (preamble [0x80, 0, 0, 0, 0, 0, 0, 0])) = (Err EOF, [])"
    by code_simp
  ultimately show ?thesis by blast
qed

section \<open>The counter across the loop\<close>

lemma sint_int8_range: "- 128 \<le> sint (x :: int8) \<and> sint x \<le> 127"
  using sint_ge [of x] sint_lt [of x] by simp

lemma readTrack_counter:
  assumes "readTrack f c = (Ok t, f', c')"
  shows "c' = c - word_of_int (21 + int (length (Name t))) \<and> length (Name t) \<le> 127"
proof -
  from readTrack_Ok [OF assms]
  obtain idb :: "byte list" and nl :: int8 and got :: "byte list" and sb :: "byte list" where
    nl: "0 \<le> sint nl" and got: "length got \<le> nat (sint nl)"
    and t: "t = \<lparr>ID = sint (word_rcat (rev idb) :: int32),
                Name = string_of_bytes (buffer (nat (sint nl)) got),
                Steps = map (\<lambda>b. 0 < sint b) sb\<rparr>"
    and c: "c' = c - 4 - 1 - scast nl - 16"
    by blast
  have name: "Name t = string_of_bytes (buffer (nat (sint nl)) got)"
    unfolding t by simp
  have "length (buffer (nat (sint nl)) got) = nat (sint nl)"
    using got unfolding buffer_def by simp
  then have "length (string_of_bytes (buffer (nat (sint nl)) got)) = nat (sint nl)"
    unfolding string_of_bytes_def by simp
  then have len: "length (Name t) = nat (sint nl)"
    by (simp only: name)
  then have i: "int (length (Name t)) = sint nl" using nl by simp
  have "(scast nl :: int64) = word_of_int (sint nl)" by (rule scast_eq)
  then have "c' = c - word_of_int (21 + int (length (Name t)))"
    using c i by simp
  moreover have "length (Name t) \<le> 127" using len sint_int8_range [of nl] by arith
  ultimately show ?thesis by simp
qed

lemma readTrack_any_counter:
  "fst (readTrack f d) = fst (readTrack f c) \<and>
   fst (snd (readTrack f d)) = fst (snd (readTrack f c))"
  by (simp add: readTrack_def Let_def split: prod.splits sum.splits)

text \<open>
  C9, as the code has it. After the signature, the size, the version and the tempo the
  decoder runs the track loop with the counter \<open>sz - 36\<close>; when the declared size minus
  36 is not below \<open>- 2 ^ 63\<close> the subtraction does not wrap and the counter is that
  difference as an integer. A track record read with success leaves the counter lower by
  4 + 1 + the name length + 16, exactly so as integers whenever the counter was positive
  before. \<^verbatim>\<open>readTrack\<close> reads the same record and leaves the same reader whatever the
  counter is: the counter is not looked at inside a record. The loop reads a record
  exactly when the counter is positive, and after a record it goes on exactly when the
  new counter is positive; a record that takes the counter below zero ends the loop with
  success.
\<close>

theorem C9_remaining_counter:
  assumes "readHeader f0 = ((''SPLICE'', e), f1)" and "readContentSize f1 = (Inr sz, f2)"
    and "readVersion f2 = (Inr version, f3)" and "readTempo f3 = (Inr tempo, f4)"
    and "- (2 ^ 63) \<le> sint sz - 36"
    and "readTrack f c = (Ok t, f', c')"
  shows "decode f0 =
           (case trackLoop f4 (sz - 36) [] of
              (Ok tracks, f5, c5) \<Rightarrow>
                (Ok \<lparr>Version = version, Tempo = tempo, Tracks = tracks\<rparr>, f5)
            | (Err err, f5, c5) \<Rightarrow> (Err err, f5)
            | (Panic msg, f5, c5) \<Rightarrow> (Panic msg, f5))
         \<and> sint (sz - 36) = sint sz - 36
         \<and> c' = c - (4 + 1 + of_nat (length (Name t)) + 16)
         \<and> (0 < sint c \<longrightarrow> sint c' = sint c - (4 + 1 + int (length (Name t)) + 16))
         \<and> (\<forall>d. fst (readTrack f d) = Ok t \<and> fst (snd (readTrack f d)) = f')
         \<and> (\<forall>ts. trackLoop f c ts =
               (if 0 < sint c
                then (if 0 < sint c' then trackLoop f' c' (ts @ [t])
                      else (Ok (ts @ [t]), f', c'))
                else (Ok ts, f, c)))"
proof -
  have "sz - 32 - 4 = sz - 36" by simp
  then have seed: "decode f0 =
           (case trackLoop f4 (sz - 36) [] of
              (Ok tracks, f5, c5) \<Rightarrow>
                (Ok \<lparr>Version = version, Tempo = tempo, Tracks = tracks\<rparr>, f5)
            | (Err err, f5, c5) \<Rightarrow> (Err err, f5)
            | (Panic msg, f5, c5) \<Rightarrow> (Panic msg, f5))"
    using assms(1-4) by (simp add: decode_def)
  have "sint (sz - word_of_int 36) = sint sz - 36"
    using assms(5) sint_int64_range [of sz] by (intro sint_sub_int64) simp_all
  then have seed_int: "sint (sz - 36) = sint sz - 36" by simp
  from readTrack_counter [OF assms(6)] have
    w: "c' = c - word_of_int (21 + int (length (Name t)))" and n: "length (Name t) \<le> 127"
    by simp_all
  have dec: "c' = c - (4 + 1 + of_nat (length (Name t)) + 16)"
    using w by simp
  have exact: "sint c' = sint c - (4 + 1 + int (length (Name t)) + 16)" if "0 < sint c"
  proof -
    have "sint (c - word_of_int (21 + int (length (Name t)))) = sint c - (21 + int (length (Name t)))"
      using that n sint_int64_range [of c] by (intro sint_sub_int64) simp_all
    then show ?thesis using w by simp
  qed
  have indep: "fst (readTrack f d) = Ok t \<and> fst (snd (readTrack f d)) = f'" for d
    using readTrack_any_counter [of f d c] assms(6) by simp
  have loop: "trackLoop f c ts =
               (if 0 < sint c
                then (if 0 < sint c' then trackLoop f' c' (ts @ [t])
                      else (Ok (ts @ [t]), f', c'))
                else (Ok ts, f, c))" for ts
  proof (cases "0 < sint c")
    case True
    then have "trackLoop f c ts = trackLoop f' c' (ts @ [t])"
      using assms(6) by (rule trackLoop_step)
    then show ?thesis using True trackLoop_stop [of c' f' "ts @ [t]"] by simp
  next
    case False
    then show ?thesis using trackLoop_stop [of c f ts] by simp
  qed
  from seed seed_int dec exact indep loop show ?thesis by blast
qed

theorem C9_remaining_counter_witness:
  "readHeader (regular_file (preamble [0, 0, 0, 0, 0, 0, 0, 37] @ kick_record)) =
     ((''SPLICE'', None), [drop 6 (preamble [0, 0, 0, 0, 0, 0, 0, 37] @ kick_record)])
   \<and> readContentSize [drop 6 (preamble [0, 0, 0, 0, 0, 0, 0, 37] @ kick_record)] =
     (Inr 37, [drop 14 (preamble [0, 0, 0, 0, 0, 0, 0, 37] @ kick_record)])
   \<and> readVersion [drop 14 (preamble [0, 0, 0, 0, 0, 0, 0, 37] @ kick_record)] =
     (Inr ''0.808-alpha'', [[0x00, 0x00, 0xF0, 0x42] @ kick_record])
   \<and> readTempo [[0x00, 0x00, 0xF0, 0x42] @ kick_record] = (Inr 0x42F00000, [kick_record])
   \<and> - (2 ^ 63) \<le> sint (37 :: int64) - 36
   \<and> readTrack [kick_record] 1 = (Ok kick_track, [], - 24)
   \<and> sint (37 - 36 :: int64) = sint (37 :: int64) - 36
   \<and> sint (- 24 :: int64) = sint (1 :: int64) - (4 + 1 + int (length (Name kick_track)) + 16)
   \<and> trackLoop [kick_record] 1 [] = (Ok [kick_track], [], - 24)
   \<and> decode (regular_file (preamble [0, 0, 0, 0, 0, 0, 0, 37] @ kick_record)) =
     (Ok \<lparr>Version = ''0.808-alpha'', Tempo = 0x42F00000, Tracks = [kick_track]\<rparr>, [])"
proof -
  have a: "readHeader (regular_file (preamble [0, 0, 0, 0, 0, 0, 0, 37] @ kick_record)) =
     ((''SPLICE'', None), [drop 6 (preamble [0, 0, 0, 0, 0, 0, 0, 37] @ kick_record)])"
    by code_simp
  have b: "readContentSize [drop 6 (preamble [0, 0, 0, 0, 0, 0, 0, 37] @ kick_record)] =
     (Inr 37, [drop 14 (preamble [0, 0, 0, 0, 0, 0, 0, 37] @ kick_record)])"
    by code_simp
  have c: "readVersion [drop 14 (preamble [0, 0, 0, 0, 0, 0, 0, 37] @ kick_record)] =
     (Inr ''0.808-alpha'', [[0x00, 0x00, 0xF0, 0x42] @ kick_record])"
    by code_simp
  have d: "readTempo [[0x00, 0x00, 0xF0, 0x42] @ kick_record] = (Inr 0x42F00000, [kick_record])"
    by code_simp
  have g: "- (2 ^ 63) \<le> sint (37 :: int64) - 36" by simp
  have r: "readTrack [kick_record] 1 = (Ok kick_track, [], - 24)"
    by code_simp
  note th = C9_remaining_counter [OF a b c d g r]
  have pos: "0 < sint (1 :: int64)" and neg: "\<not> 0 < sint (- 24 :: int64)" by simp_all
  from th have s: "sint (37 - 36 :: int64) = sint (37 :: int64) - 36" by blast
  from th pos have x: "sint (- 24 :: int64) =
      sint (1 :: int64) - (4 + 1 + int (length (Name kick_track)) + 16)"
    by blast
  from th have "trackLoop [kick_record] 1 [] =
               (if 0 < sint (1 :: int64)
                then (if 0 < sint (- 24 :: int64) then trackLoop [] (- 24) ([] @ [kick_track])
                      else (Ok ([] @ [kick_track]), [], - 24))
                else (Ok [], [kick_record], 1))"
    by blast
  then have l: "trackLoop [kick_record] 1 [] = (Ok [kick_track], [], - 24)"
    using pos neg by simp
  from th have "decode (regular_file (preamble [0, 0, 0, 0, 0, 0, 0, 37] @ kick_record)) =
           (case trackLoop [kick_record] (37 - 36) [] of
              (Ok tracks, f5, c5) \<Rightarrow>
                (Ok \<lparr>Version = ''0.808-alpha'', Tempo = 0x42F00000, Tracks = tracks\<rparr>, f5)
            | (Err err, f5, c5) \<Rightarrow> (Err err, f5)
            | (Panic msg, f5, c5) \<Rightarrow> (Panic msg, f5))"
    by blast
  then have e: "decode (regular_file (preamble [0, 0, 0, 0, 0, 0, 0, 37] @ kick_record)) =
     (Ok \<lparr>Version = ''0.808-alpha'', Tempo = 0x42F00000, Tracks = [kick_track]\<rparr>, [])"
    using l by simp
  from a b c d g r s x l e show ?thesis by blast
qed

text \<open>
  C9, as the claim has it, fails for a declared size of \<open>- 2 ^ 63\<close> (size bytes
  \<^verbatim>\<open>80 00 00 00 00 00 00 00\<close>): the size minus 36 is negative, but the counter the loop
  starts with is \<open>2 ^ 63 - 36\<close>, which is positive and is not the size minus 36, and
  the loop body runs: on a reader that is at its end the read of a track id fails with
  \<^verbatim>\<open>io.EOF\<close>.
\<close>

theorem C9_seed_wraps_counterexample:
  "readContentSize [drop 6 (preamble [0x80, 0, 0, 0, 0, 0, 0, 0])] =
     (Inr 0x8000000000000000, [drop 14 (preamble [0x80, 0, 0, 0, 0, 0, 0, 0])])
   \<and> sint (0x8000000000000000 :: int64) - 36 < 0
   \<and> 0 < sint ((0x8000000000000000 :: int64) - 32 - 4)
   \<and> sint ((0x8000000000000000 :: int64) - 32 - 4) \<noteq> sint (0x8000000000000000 :: int64) - 36
   \<and> fst (trackLoop [] ((0x8000000000000000 :: int64) - 32 - 4) []) = Err EOF"
proof -
  have a: "readContentSize [drop 6 (preamble [0x80, 0, 0, 0, 0, 0, 0, 0])] =
     (Inr 0x8000000000000000, [drop 14 (preamble [0x80, 0, 0, 0, 0, 0, 0, 0])])"
    by code_simp
  have b: "sint (0x8000000000000000 :: int64) - 36 < 0" by simp
  have c: "0 < sint ((0x8000000000000000 :: int64) - 32 - 4)" by simp
  have d: "sint ((0x8000000000000000 :: int64) - 32 - 4) \<noteq> sint (0x8000000000000000 :: int64) - 36"
    by simp
  have e: "fst (trackLoop [] ((0x8000000000000000 :: int64) - 32 - 4) []) = Err EOF"
    by code_simp
  from a b c d e show ?thesis by blast
qed

section \<open>The same bytes in different pieces\<close>

text \<open>
  The reads made through \<^verbatim>\<open>binary.Read\<close> depend on the bytes of the reader alone, not on
  the pieces they come in: \<open>ReadFull\<close> returns the next \<open>n\<close> bytes, or fails when fewer
  are left, and leaves the bytes behind them. The three reads made with \<^verbatim>\<open>file.Read\<close>
  (header, version, name) take what one piece gives.
\<close>

lemma ReadFull_bytes:
  "fst (ReadFull n got r) =
     (if n \<le> length got then Inr got
      else if n \<le> length got + length (concat r)
           then Inr (got @ take (n - length got) (concat r))
      else if got = [] \<and> concat r = [] then Inl EOF else Inl ErrUnexpectedEOF)
   \<and> concat (snd (ReadFull n got r)) =
     (if n \<le> length got then concat r else drop (n - length got) (concat r))"
proof (induction r arbitrary: got)
  case Nil
  show ?case by simp
next
  case (Cons c cs)
  show ?case
  proof (cases "n \<le> length got")
    case True
    then show ?thesis by simp
  next
    case False
    show ?thesis
    proof (cases "length c \<le> n - length got")
      case True
      have "ReadFull n got (c # cs) = ReadFull n (got @ c) cs"
        using False True by simp
      then show ?thesis using Cons.IH [of "got @ c"] False True by auto
    next
      case c: False
      then have lt: "n - length got < length c" by arith
      have rf: "ReadFull n got (c # cs) =
              (Inr (got @ take (n - length got) c), drop (n - length got) c # cs)"
        using False c by simp
      have t: "take (n - length got) (concat (c # cs)) = take (n - length got) c"
        using lt by simp
      have d: "drop (n - length got) (concat (c # cs)) = drop (n - length got) c @ concat cs"
        using lt by simp
      have le: "n \<le> length got + length (concat (c # cs))" using lt by simp
      have c2: "concat (drop (n - length got) c # cs) = drop (n - length got) c @ concat cs"
        by simp
      show ?thesis
        by (simp only: rf fst_conv snd_conv t d c2 le False if_True if_False simp_thms)
    qed
  qed
qed

lemma ReadFull_same_bytes:
  "concat r1 = concat r2 \<Longrightarrow>
     fst (ReadFull n got r1) = fst (ReadFull n got r2) \<and>
     concat (snd (ReadFull n got r1)) = concat (snd (ReadFull n got r2))"
  by (simp only: ReadFull_bytes)

text \<open>
  C10. Two runs over the same bytes, those of the file of the scenario. Read from a
  regular file they decode to the track \<^verbatim>\<open>kick\<close>. Delivered in two pieces, the first
  ending after the second byte of the name, they decode with no error to another
  pattern, whose track is named \<^verbatim>\<open>ki\<close> followed by two zero bytes; delivered in two
  pieces, the first ending after the third byte of the signature, they give the error
  for a bad header. The result depends on the pieces and not on the bytes alone.
\<close>

theorem C10_same_bytes_different_results:
  "concat [preamble [0, 0, 0, 0, 0, 0, 0, 61] @ [0, 0, 0, 0] @ [4] @ map of_char ''ki'',
           map of_char ''ck'' @ kick_steps] =
   concat (regular_file (preamble [0, 0, 0, 0, 0, 0, 0, 61] @ kick_record))
   \<and> fst (decode (regular_file (preamble [0, 0, 0, 0, 0, 0, 0, 61] @ kick_record))) =
       Ok \<lparr>Version = ''0.808-alpha'', Tempo = 0x42F00000, Tracks = [kick_track]\<rparr>
   \<and> fst (decode [preamble [0, 0, 0, 0, 0, 0, 0, 61] @ [0, 0, 0, 0] @ [4] @ map of_char ''ki'',
                   map of_char ''ck'' @ kick_steps]) =
       Ok \<lparr>Version = ''0.808-alpha'', Tempo = 0x42F00000,
           Tracks = [\<lparr>ID = 0, Name = [CHR ''k'', CHR ''i'', CHR 0x00, CHR 0x00],
                      Steps = [True, True, True, False, False, False, True, False,
                               False, False, True, False, False, False, True, False]\<rparr>]\<rparr>
   \<and> fst (decode (regular_file (preamble [0, 0, 0, 0, 0, 0, 0, 61] @ kick_record))) \<noteq>
       fst (decode [preamble [0, 0, 0, 0, 0, 0, 0, 61] @ [0, 0, 0, 0] @ [4] @ map of_char ''ki'',
                    map of_char ''ck'' @ kick_steps])
   \<and> concat [map of_char ''SPL'', drop 3 (preamble [0, 0, 0, 0, 0, 0, 0, 61] @ kick_record)] =
       concat (regular_file (preamble [0, 0, 0, 0, 0, 0, 0, 61] @ kick_record))
   \<and> fst (decode [map of_char ''SPL'', drop 3 (preamble [0, 0, 0, 0, 0, 0, 0, 61] @ kick_record)]) =
       Err (errorString (''Invalid file header, expected SPLICE, got SPL''
                         @ [CHR 0x00, CHR 0x00, CHR 0x00]))"
proof -
  have a: "concat [preamble [0, 0, 0, 0, 0, 0, 0, 61] @ [0, 0, 0, 0] @ [4] @ map of_char ''ki'',
           map of_char ''ck'' @ kick_steps] =
   concat (regular_file (preamble [0, 0, 0, 0, 0, 0, 0, 61] @ kick_record))"
    by code_simp
  have b: "fst (decode (regular_file (preamble [0, 0, 0, 0, 0, 0, 0, 61] @ kick_record))) =
       Ok \<lparr>Version = ''0.808-alpha'', Tempo = 0x42F00000, Tracks = [kick_track]\<rparr>"
    by code_simp
  have c: "fst (decode [preamble [0, 0, 0, 0, 0, 0, 0, 61] @ [0, 0, 0, 0] @ [4] @ map of_char ''ki'',
                   map of_char ''ck'' @ kick_steps]) =
       Ok \<lparr>Version = ''0.808-alpha'', Tempo = 0x42F00000,
           Tracks = [\<lparr>ID = 0, Name = [CHR ''k'', CHR ''i'', CHR 0x00, CHR 0x00],
                      Steps = [True, True, True, False, False, False, True, False,
                               False, False, True, False, False, False, True, False]\<rparr>]\<rparr>"
    by code_simp
  have d: "fst (decode (regular_file (preamble [0, 0, 0, 0, 0, 0, 0, 61] @ kick_record))) \<noteq>
       fst (decode [preamble [0, 0, 0, 0, 0, 0, 0, 61] @ [0, 0, 0, 0] @ [4] @ map of_char ''ki'',
                    map of_char ''ck'' @ kick_steps])"
    unfolding b c by (simp add: kick_track_def)
  have e: "concat [map of_char ''SPL'', drop 3 (preamble [0, 0, 0, 0, 0, 0, 0, 61] @ kick_record)] =
       concat (regular_file (preamble [0, 0, 0, 0, 0, 0, 0, 61] @ kick_record))"
    by code_simp
  have g: "fst (decode [map of_char ''SPL'', drop 3 (preamble [0, 0, 0, 0, 0, 0, 0, 61] @ kick_record)]) =
       Err (errorString (''Invalid file header, expected SPLICE, got SPL''
                         @ [CHR 0x00, CHR 0x00, CHR 0x00]))"
    by code_simp
  from a b c d e g show ?thesis by blast
qed

end
